theory Spec2Isabelle
  imports Complex_Main "HOL-Library.Log_Nat"
begin

section \<open>Numbers\<close>

text \<open>
  The weather payload carries JSON numbers, which Python reads as \<open>int\<close> or as \<open>float\<close>
  (IEEE 754 binary64). A number is modelled by its exact rational value; a float operation
  is the exact operation followed by rounding to the nearest binary64 value, ties to even
  (\<open>to_double\<close>). Subnormal values are covered (the exponent of the last place is never below
  \<open>-1074\<close>); overflow to infinity is not: the model agrees with the interpreter as long as
  every intermediate magnitude stays below \<open>2 ^ 1024\<close>. An integer and the float of the
  same value are one number here, which is exact for integers below \<open>2 ^ 53\<close>.
\<close>

definition round_half_even :: "rat \<Rightarrow> int" where
  "round_half_even x =
     (let f = \<lfloor>x\<rfloor>; d = x - of_int f
      in if d < 1 / 2 then f
         else if 1 / 2 < d then f + 1
         else if even f then f else f + 1)"

text \<open>The exponent \<open>e\<close> with \<open>2 ^ e \<le> |x| < 2 ^ (e + 1)\<close>, for \<open>x \<noteq> 0\<close>.\<close>

definition binary_exponent :: "rat \<Rightarrow> int" where
  "binary_exponent x =
     (let (n, d) = quotient_of \<bar>x\<bar>; e = bitlen n - bitlen d
      in if power_int 2 e \<le> \<bar>x\<bar> then e else e - 1)"

definition to_double :: "rat \<Rightarrow> rat" where
  "to_double x =
     (if x = 0 then 0
      else let p = max (binary_exponent x - 52) (- 1074)
           in sgn x * of_int (round_half_even (\<bar>x\<bar> / power_int 2 p)) * power_int 2 p)"

definition float_add :: "rat \<Rightarrow> rat \<Rightarrow> rat" where
  "float_add a b = to_double (a + b)"

datatype py_error = ValueError | IndexError | ZeroDivisionError | UnboundLocalError

text \<open>\<open>a / n\<close> where \<open>n\<close> is a \<open>len(...)\<close>: true division, correctly rounded.\<close>

definition true_div :: "rat \<Rightarrow> nat \<Rightarrow> py_error + rat" where
  "true_div a n = (if n = 0 then Inl ZeroDivisionError else Inr (to_double (a / of_nat n)))"

text \<open>\<open>round(x, 1)\<close>: the decimal rounding of the exact value, read back as a float.\<close>

definition round1 :: "rat \<Rightarrow> rat" where
  "round1 x = to_double (of_int (round_half_even (x * 10)) / 10)"

text \<open>\<open>sum(xs)\<close> over floats: left to right from the integer \<open>0\<close>, each addition rounded.
  (CPython from 3.12 on adds a compensation term for the rounding errors at the end; the
  sums evaluated in this theory are the same with it.)\<close>

definition py_sum :: "rat list \<Rightarrow> rat" where
  "py_sum xs = foldl float_add 0 xs"

definition py_min :: "rat list \<Rightarrow> py_error + rat" where
  "py_min xs = (case xs of [] \<Rightarrow> Inl ValueError | x # rest \<Rightarrow> Inr (foldl min x rest))"

definition py_max :: "rat list \<Rightarrow> py_error + rat" where
  "py_max xs = (case xs of [] \<Rightarrow> Inl ValueError | x # rest \<Rightarrow> Inr (foldl max x rest))"

text \<open>\<open>max(xs, key=f)\<close>: the first element whose key is largest.\<close>

fun max_from :: "('a \<Rightarrow> nat) \<Rightarrow> 'a \<Rightarrow> 'a list \<Rightarrow> 'a" where
  "max_from key best [] = best"
| "max_from key best (x # xs) = max_from key (if key best < key x then x else best) xs"

definition py_max_key :: "('a \<Rightarrow> nat) \<Rightarrow> 'a list \<Rightarrow> py_error + 'a" where
  "py_max_key key xs = (case xs of [] \<Rightarrow> Inl ValueError | x # rest \<Rightarrow> Inr (max_from key x rest))"

definition bind_result :: "'e + 'a \<Rightarrow> ('a \<Rightarrow> 'e + 'b) \<Rightarrow> 'e + 'b" where
  "bind_result r f = (case r of Inl e \<Rightarrow> Inl e | Inr v \<Rightarrow> f v)"

text \<open>\<open>xs[:d]\<close>: a negative bound counts from the end.\<close>

definition slice_to :: "'a list \<Rightarrow> int \<Rightarrow> 'a list" where
  "slice_to xs d = (if 0 \<le> d then take (nat d) xs else take (length xs - nat (- d)) xs)"

section \<open>Strings\<close>

text \<open>\<open>str.title()\<close> on ASCII letters; other characters are uncased and pass unchanged.\<close>

definition is_lower :: "char \<Rightarrow> bool" where
  "is_lower c = (97 \<le> (of_char c :: nat) \<and> (of_char c :: nat) \<le> 122)"

definition is_upper :: "char \<Rightarrow> bool" where
  "is_upper c = (65 \<le> (of_char c :: nat) \<and> (of_char c :: nat) \<le> 90)"

definition to_upper :: "char \<Rightarrow> char" where
  "to_upper c = char_of ((of_char c :: nat) - 32)"

definition to_lower :: "char \<Rightarrow> char" where
  "to_lower c = char_of ((of_char c :: nat) + 32)"

fun title_from :: "bool \<Rightarrow> string \<Rightarrow> string" where
  "title_from prev_cased [] = []"
| "title_from prev_cased (c # cs) =
     (if is_lower c then (if prev_cased then c else to_upper c) # title_from True cs
      else if is_upper c then (if prev_cased then to_lower c else c) # title_from True cs
      else c # title_from False cs)"

definition title :: "string \<Rightarrow> string" where
  "title s = title_from False s"

section \<open>Forecast aggregation (api_client.py)\<close>

text \<open>One 3-hour entry of the forecast payload's \<open>list\<close>, with the first element of its
  \<open>weather\<close> array.\<close>

record sample =
  s_dt :: int
  s_temp :: rat
  s_humidity :: int
  s_wind_speed :: rat
  s_main :: string
  s_description :: string
  s_icon :: string

record forecast_day =
  fd_date :: int
  fd_temp_min :: rat
  fd_temp_max :: rat
  fd_temp_avg :: rat
  fd_description :: string
  fd_main :: string
  fd_icon :: string
  fd_humidity :: int
  fd_wind_speed :: rat

text \<open>
  Two things the interpreter decides are parameters of the model:
  \<^item> \<open>local_date\<close>, the calendar date (as a day number) of an epoch timestamp in the local
    time zone, \<open>datetime.fromtimestamp(t).date()\<close>;
  \<^item> \<open>set_order\<close>, the order in which \<open>set(xs)\<close> is iterated. It lists every element of
    \<open>xs\<close> once (\<open>set_iteration\<close>), in an order that depends on the strings' hashes.
\<close>

definition set_iteration :: "(string list \<Rightarrow> string list) \<Rightarrow> bool" where
  "set_iteration set_order = (\<forall>xs. distinct (set_order xs) \<and> set (set_order xs) = set xs)"

text \<open>\<open>max(set(conditions), key=conditions.count)\<close>\<close>

definition main_condition :: "(string list \<Rightarrow> string list) \<Rightarrow> string list \<Rightarrow> py_error + string" where
  "main_condition set_order conditions = py_max_key (count_list conditions) (set_order conditions)"

definition first_sample :: "sample list \<Rightarrow> py_error + sample" where
  "first_sample day_data = (case day_data of [] \<Rightarrow> Inl IndexError | item # _ \<Rightarrow> Inr item)"

text \<open>The \<open>for\<close> loop that binds \<open>description\<close> and \<open>icon\<close>; when no sample matches they
  stay unbound and their first use raises.\<close>

definition matching_sample :: "string \<Rightarrow> sample list \<Rightarrow> py_error + sample" where
  "matching_sample cond day_data =
     (case find (\<lambda>item. s_main item = cond) day_data of
        None \<Rightarrow> Inl UnboundLocalError
      | Some item \<Rightarrow> Inr item)"

definition aggregate_day_forecast ::
  "(int \<Rightarrow> int) \<Rightarrow> (string list \<Rightarrow> string list) \<Rightarrow> sample list \<Rightarrow> py_error + forecast_day" where
  "aggregate_day_forecast local_date set_order day_data =
     (let temps = map s_temp day_data;
          conditions = map s_main day_data
      in bind_result (main_condition set_order conditions) (\<lambda>cond.
         bind_result (first_sample day_data) (\<lambda>first.
         bind_result (py_min temps) (\<lambda>tmin.
         bind_result (py_max temps) (\<lambda>tmax.
         bind_result (true_div (py_sum temps) (length temps)) (\<lambda>tavg.
         bind_result (matching_sample cond day_data) (\<lambda>found.
         bind_result (true_div (of_int (sum_list (map s_humidity day_data))) (length day_data)) (\<lambda>hum.
         bind_result (true_div (py_sum (map s_wind_speed day_data)) (length day_data)) (\<lambda>wind.
         Inr \<lparr> fd_date = local_date (s_dt first),
               fd_temp_min = round1 tmin,
               fd_temp_max = round1 tmax,
               fd_temp_avg = round1 tavg,
               fd_description = title (s_description found),
               fd_main = cond,
               fd_icon = s_icon found,
               fd_humidity = round_half_even hum,
               fd_wind_speed = round1 wind \<rparr>)))))))))"

text \<open>The \<open>for item in data['list']\<close> loop of \<open>_process_forecast\<close>, with its three
  variables \<open>daily_forecasts\<close>, \<open>current_date\<close> and \<open>day_data\<close>.\<close>

fun forecast_loop ::
  "(int \<Rightarrow> int) \<Rightarrow> (string list \<Rightarrow> string list) \<Rightarrow> int \<Rightarrow> sample list \<Rightarrow>
   forecast_day list \<Rightarrow> int option \<Rightarrow> sample list \<Rightarrow> py_error + (forecast_day list \<times> sample list)" where
  "forecast_loop local_date set_order days [] daily_forecasts current_date day_data =
     Inr (daily_forecasts, day_data)"
| "forecast_loop local_date set_order days (item # items) daily_forecasts current_date day_data =
     (let forecast_date = local_date (s_dt item)
      in if current_date \<noteq> Some forecast_date then
           (if day_data \<noteq> [] \<and> int (length daily_forecasts) < days then
              bind_result (aggregate_day_forecast local_date set_order day_data) (\<lambda>d.
                forecast_loop local_date set_order days items (daily_forecasts @ [d])
                  (Some forecast_date) [item])
            else forecast_loop local_date set_order days items daily_forecasts
                   (Some forecast_date) [item])
         else forecast_loop local_date set_order days items daily_forecasts current_date
                (day_data @ [item]))"

definition process_forecast ::
  "(int \<Rightarrow> int) \<Rightarrow> (string list \<Rightarrow> string list) \<Rightarrow> sample list \<Rightarrow> int \<Rightarrow> py_error + forecast_day list" where
  "process_forecast local_date set_order data days =
     bind_result (forecast_loop local_date set_order days data [] None []) (\<lambda>(daily_forecasts, day_data).
       if day_data \<noteq> [] \<and> int (length daily_forecasts) < days then
         bind_result (aggregate_day_forecast local_date set_order day_data) (\<lambda>d.
           Inr (slice_to (daily_forecasts @ [d]) days))
       else Inr (slice_to daily_forecasts days))"

text \<open>
  The specification's partition: contiguous runs of samples with the same calendar date,
  a boundary exactly where the date changes between adjacent samples. \<open>split_runs\<close> carries
  the run that is still open.
\<close>

fun split_runs :: "(int \<Rightarrow> int) \<Rightarrow> sample list \<Rightarrow> sample list \<Rightarrow> sample list list" where
  "split_runs local_date run [] = (if run = [] then [] else [run])"
| "split_runs local_date run (x # xs) =
     (if run \<noteq> [] \<and> local_date (s_dt (last run)) \<noteq> local_date (s_dt x)
      then run # split_runs local_date [x] xs
      else split_runs local_date (run @ [x]) xs)"

definition date_runs :: "(int \<Rightarrow> int) \<Rightarrow> sample list \<Rightarrow> sample list list" where
  "date_runs local_date xs = split_runs local_date [] xs"

section \<open>Current weather (api_client.py)\<close>

text \<open>\<open>a / b\<close> on numbers, for a divisor that is not zero.\<close>

definition float_div :: "rat \<Rightarrow> rat \<Rightarrow> rat" where
  "float_div a b = to_double (a / b)"

text \<open>The fields of the current-weather payload that the mapper reads. \<open>deg\<close> and
  \<open>visibility\<close> are read with \<open>.get\<close> and may be absent.\<close>

record current_payload =
  p_name :: string
  p_country :: string
  p_temp :: rat
  p_feels_like :: rat
  p_temp_min :: rat
  p_temp_max :: rat
  p_humidity :: int
  p_pressure :: int
  p_wind_speed :: rat
  p_wind_deg :: "int option"
  p_description :: string
  p_main :: string
  p_icon :: string
  p_clouds :: int
  p_visibility :: "rat option"
  p_sunrise :: int
  p_sunset :: int
  p_timezone :: int

text \<open>The snapshot; the three \<open>datetime\<close> values are instants, kept as epoch seconds.\<close>

record weather_snapshot =
  ws_city :: string
  ws_country :: string
  ws_temperature :: rat
  ws_feels_like :: rat
  ws_temp_min :: rat
  ws_temp_max :: rat
  ws_humidity :: int
  ws_pressure :: int
  ws_wind_speed :: rat
  ws_wind_direction :: int
  ws_description :: string
  ws_main :: string
  ws_icon :: string
  ws_clouds :: int
  ws_visibility :: rat
  ws_sunrise :: int
  ws_sunset :: int
  ws_timezone :: int
  ws_timestamp :: int

definition get_or :: "'a option \<Rightarrow> 'a \<Rightarrow> 'a" where
  "get_or v dflt = (case v of None \<Rightarrow> dflt | Some x \<Rightarrow> x)"

text \<open>\<open>now\<close> is the clock reading \<open>datetime.now(pytz.UTC)\<close>.\<close>

definition process_current_weather :: "int \<Rightarrow> current_payload \<Rightarrow> weather_snapshot" where
  "process_current_weather now data =
     \<lparr> ws_city = p_name data,
       ws_country = p_country data,
       ws_temperature = round1 (p_temp data),
       ws_feels_like = round1 (p_feels_like data),
       ws_temp_min = round1 (p_temp_min data),
       ws_temp_max = round1 (p_temp_max data),
       ws_humidity = p_humidity data,
       ws_pressure = p_pressure data,
       ws_wind_speed = round1 (p_wind_speed data),
       ws_wind_direction = get_or (p_wind_deg data) 0,
       ws_description = title (p_description data),
       ws_main = p_main data,
       ws_icon = p_icon data,
       ws_clouds = p_clouds data,
       ws_visibility = float_div (get_or (p_visibility data) 0) 1000,
       ws_sunrise = p_sunrise data,
       ws_sunset = p_sunset data,
       ws_timezone = p_timezone data,
       ws_timestamp = now \<rparr>"

section \<open>Fetching (api_client.py, config.py)\<close>

definition base_url :: string where
  "base_url = ''https://api.openweathermap.org/data/2.5''"

definition current_weather_url :: string where
  "current_weather_url = base_url @ ''/weather''"

definition forecast_url :: string where
  "forecast_url = base_url @ ''/forecast''"

record request_params =
  q :: string
  units :: string
  cnt :: "int option"

text \<open>
  What \<open>session.get\<close> can do: return a response (status code, body text and the parsed
  body \<open>response.json()\<close>), or raise one of the \<open>requests\<close> exceptions with its message.
  \<open>ConnectTimeout\<close> is both a \<open>Timeout\<close> and a \<open>ConnectionError\<close>. The parsed body of a
  response with status 200 is a payload with every field that the mappers read.
\<close>

datatype exception_class = ReadTimeout | ConnectTimeout | ConnectionError | RequestException

datatype 'p outcome = Response int string 'p | Raised exception_class string

definition is_timeout :: "exception_class \<Rightarrow> bool" where
  "is_timeout c = (c = ReadTimeout \<or> c = ConnectTimeout)"

definition is_connection_error :: "exception_class \<Rightarrow> bool" where
  "is_connection_error c = (c = ConnectTimeout \<or> c = ConnectionError)"

datatype failure = WeatherAPIError string | Unhandled py_error

text \<open>\<open>str(n)\<close> for an integer.\<close>

fun str_nat :: "nat \<Rightarrow> string" where
  "str_nat n = (if n < 10 then [char_of (48 + n)]
                else str_nat (n div 10) @ [char_of (48 + n mod 10)])"

definition str_int :: "int \<Rightarrow> string" where
  "str_int i = (if i < 0 then CHR ''-'' # str_nat (nat (- i)) else str_nat (nat i))"

definition quoted :: "string \<Rightarrow> string" where
  "quoted s = [CHR 0x27] @ s @ [CHR 0x27]"

definition current_params :: "string \<Rightarrow> string \<Rightarrow> request_params" where
  "current_params city api_units = \<lparr> q = city, units = api_units, cnt = None \<rparr>"

definition current_result :: "int \<Rightarrow> string \<Rightarrow> current_payload outcome \<Rightarrow> failure + weather_snapshot" where
  "current_result now city out =
     (case out of
        Response status_code body json \<Rightarrow>
          if status_code = 404 then
            Inl (WeatherAPIError (''City '' @ quoted city @ '' not found. Please check the spelling.''))
          else if status_code = 401 then
            Inl (WeatherAPIError ''Invalid API key. Please check your configuration.'')
          else if status_code \<noteq> 200 then
            Inl (WeatherAPIError (''API error: '' @ str_int status_code @ '' - '' @ body))
          else Inr (process_current_weather now json)
      | Raised c msg \<Rightarrow>
          if is_timeout c then
            Inl (WeatherAPIError ''Request timed out. Please check your internet connection.'')
          else if is_connection_error c then
            Inl (WeatherAPIError ''Connection error. Please check your internet connection.'')
          else Inl (WeatherAPIError (''Network error: '' @ msg)))"

definition get_current_weather ::
  "(string \<Rightarrow> request_params \<Rightarrow> current_payload outcome) \<Rightarrow> int \<Rightarrow> string \<Rightarrow> string \<Rightarrow>
   failure + weather_snapshot" where
  "get_current_weather session_get now city api_units =
     current_result now city (session_get current_weather_url (current_params city api_units))"

definition forecast_params :: "string \<Rightarrow> string \<Rightarrow> int \<Rightarrow> request_params" where
  "forecast_params city api_units days =
     \<lparr> q = city, units = api_units, cnt = Some (min (days * 8) 40) \<rparr>"

definition forecast_result ::
  "(int \<Rightarrow> int) \<Rightarrow> (string list \<Rightarrow> string list) \<Rightarrow> string \<Rightarrow> int \<Rightarrow> sample list outcome \<Rightarrow>
   failure + forecast_day list" where
  "forecast_result local_date set_order city days out =
     (case out of
        Response status_code body json \<Rightarrow>
          if status_code = 404 then
            Inl (WeatherAPIError (''City '' @ quoted city @ '' not found for forecast.''))
          else if status_code \<noteq> 200 then
            Inl (WeatherAPIError (''Forecast API error: '' @ str_int status_code))
          else (case process_forecast local_date set_order json days of
                  Inl e \<Rightarrow> Inl (Unhandled e)
                | Inr daily \<Rightarrow> Inr daily)
      | Raised c msg \<Rightarrow> Inl (WeatherAPIError (''Forecast fetch error: '' @ msg)))"

definition get_forecast ::
  "(int \<Rightarrow> int) \<Rightarrow> (string list \<Rightarrow> string list) \<Rightarrow>
   (string \<Rightarrow> request_params \<Rightarrow> sample list outcome) \<Rightarrow> string \<Rightarrow> string \<Rightarrow> int \<Rightarrow>
   failure + forecast_day list" where
  "get_forecast local_date set_order session_get city api_units days =
     forecast_result local_date set_order city days
       (session_get forecast_url (forecast_params city api_units days))"

section \<open>Session state (main.py, config.py)\<close>

definition lower :: "string \<Rightarrow> string" where
  "lower s = map (\<lambda>c. if is_upper c then to_lower c else c) s"

text \<open>\<open>Config.__init__\<close> over the environment, a map from variable names to values.\<close>

record config =
  api_key :: "string option"
  default_city :: string
  cfg_temperature_unit :: string

definition load_config :: "(string \<Rightarrow> string option) \<Rightarrow> config" where
  "load_config env =
     \<lparr> api_key = env ''OPENWEATHER_API_KEY'',
       default_city = get_or (env ''DEFAULT_CITY'') ''London'',
       cfg_temperature_unit = lower (get_or (env ''TEMPERATURE_UNIT'') ''celsius'') \<rparr>"

text \<open>The state of \<open>WeatherApp\<close>. Its console output is a sink and is left out.\<close>

record weather_app =
  current_city :: string
  temperature_unit :: string
  current_weather :: "weather_snapshot option"
  forecast_data :: "forecast_day list option"

text \<open>\<open>WeatherApp.__init__\<close>; \<open>config.validate()\<close> raises without an API key.\<close>

definition new_app :: "config \<Rightarrow> py_error + weather_app" where
  "new_app cfg =
     (if api_key cfg = None \<or> api_key cfg = Some [] then Inl ValueError
      else Inr \<lparr> current_city = default_city cfg,
                 temperature_unit = cfg_temperature_unit cfg,
                 current_weather = None,
                 forecast_data = None \<rparr>)"

definition api_units_of :: "string \<Rightarrow> string" where
  "api_units_of unit = (if unit = ''celsius'' then ''metric'' else ''imperial'')"

definition fetch_weather ::
  "(string \<Rightarrow> request_params \<Rightarrow> current_payload outcome) \<Rightarrow> int \<Rightarrow> weather_app \<Rightarrow> string \<Rightarrow>
   weather_app" where
  "fetch_weather session_get now app city =
     (case get_current_weather session_get now city (api_units_of (temperature_unit app)) of
        Inr weather \<Rightarrow> app \<lparr> current_weather := Some weather, current_city := city \<rparr>
      | Inl e \<Rightarrow> app)"

definition toggle_temperature_unit ::
  "(string \<Rightarrow> request_params \<Rightarrow> current_payload outcome) \<Rightarrow> int \<Rightarrow> weather_app \<Rightarrow> weather_app" where
  "toggle_temperature_unit session_get now app =
     (let app' = (if temperature_unit app = ''celsius''
                  then app \<lparr> temperature_unit := ''fahrenheit'' \<rparr>
                  else app \<lparr> temperature_unit := ''celsius'' \<rparr>)
      in if current_city app' \<noteq> [] then fetch_weather session_get now app' (current_city app')
         else app')"

section \<open>Proof vocabulary\<close>

text \<open>The loop invariant, the relation between forecast days and the runs they aggregate,
  and the run still open at the end of a partition.\<close>

definition loop_inv :: "(int \<Rightarrow> int) \<Rightarrow> int option \<Rightarrow> sample list \<Rightarrow> bool" where
  "loop_inv local_date current_date day_data =
     (if day_data = [] then current_date = None
      else current_date = Some (local_date (s_dt (last day_data))))"

definition aggregates ::
  "(int \<Rightarrow> int) \<Rightarrow> (string list \<Rightarrow> string list) \<Rightarrow> forecast_day list \<Rightarrow> sample list list \<Rightarrow> bool" where
  "aggregates local_date set_order ds runs =
     list_all2 (\<lambda>d run. aggregate_day_forecast local_date set_order run = Inr d) ds runs"

definition open_run :: "sample list list \<Rightarrow> sample list" where
  "open_run rs = (if rs = [] then [] else last rs)"

text \<open>The calendar date of a sample.\<close>

definition sample_date :: "(int \<Rightarrow> int) \<Rightarrow> sample \<Rightarrow> int" where
  "sample_date local_date item = local_date (s_dt item)"

text \<open>The exponent of the last place of the binary64 format at \<open>x\<close>, as in \<open>to_double\<close>.\<close>

definition last_place :: "rat \<Rightarrow> int" where
  "last_place x = max (binary_exponent x - 52) (- 1074)"

text \<open>A float that is a number with one decimal place, read as a float.\<close>

definition one_decimal :: "rat \<Rightarrow> bool" where
  "one_decimal v = (\<exists>k::int. v = to_double (of_int k / 10))"

text \<open>Projections of a result, for statements about concrete inputs.\<close>

definition forecast_length :: "failure + forecast_day list \<Rightarrow> nat option" where
  "forecast_length r = (case r of Inl e \<Rightarrow> None | Inr daily \<Rightarrow> Some (length daily))"

definition unit_of :: "py_error + weather_app \<Rightarrow> string option" where
  "unit_of r = (case r of Inl e \<Rightarrow> None | Inr app \<Rightarrow> Some (temperature_unit app))"

definition day_temps :: "py_error + forecast_day \<Rightarrow> (rat \<times> rat \<times> rat) option" where
  "day_temps r = (case r of Inl e \<Rightarrow> None
                  | Inr d \<Rightarrow> Some (fd_temp_min d, fd_temp_avg d, fd_temp_max d))"

section \<open>Test data\<close>

text \<open>The calendar date in a time zone without offset.\<close>

definition utc_date :: "int \<Rightarrow> int" where
  "utc_date t = t div 86400"

definition sample_at :: "int \<Rightarrow> rat \<Rightarrow> string \<Rightarrow> sample" where
  "sample_at t temp cond =
     \<lparr> s_dt = t, s_temp = temp, s_humidity = 50, s_wind_speed = 3, s_main = cond,
       s_description = ''light rain'', s_icon = ''10d'' \<rparr>"

definition week_data :: "sample list" where
  "week_data = map (\<lambda>i. sample_at (int i * 43200) 10 ''Rain'') [0..<14]"

text \<open>A set iteration order that yields the elements in the reverse order of their last
  occurrence.\<close>

definition clouds_first :: "string list \<Rightarrow> string list" where
  "clouds_first xs = rev (remdups xs)"

definition tie_run :: "sample list" where
  "tie_run = [sample_at 0 10 ''Rain'', sample_at 10800 11 ''Clouds'',
              sample_at 21600 12 ''Rain'', sample_at 32400 13 ''Clouds'']"

definition five_day_data :: "sample list" where
  "five_day_data = map (\<lambda>i. sample_at (int i * 10800) 10 ''Rain'') [0..<40]"

definition six_date_data :: "sample list" where
  "six_date_data = map (\<lambda>i. sample_at (43200 + int i * 10800) 10 ''Rain'') [0..<40]"

text \<open>The float written \<open>0.44999999999999996\<close>, the one just below \<open>0.45\<close>.\<close>

definition near_045 :: rat where
  "near_045 = 2026619832316723 / 4503599627370496"

definition flat_run :: "sample list" where
  "flat_run = [sample_at 0 near_045 ''Rain'', sample_at 10800 near_045 ''Rain'',
               sample_at 21600 near_045 ''Rain'', sample_at 32400 near_045 ''Rain'',
               sample_at 43200 near_045 ''Rain'']"

text \<open>A transport that gives the same outcome to every request.\<close>

definition replies :: "'p outcome \<Rightarrow> string \<Rightarrow> request_params \<Rightarrow> 'p outcome" where
  "replies out url params = out"

definition kelvin_env :: "string \<Rightarrow> string option" where
  "kelvin_env name =
     (if name = ''OPENWEATHER_API_KEY'' then Some ''k''
      else if name = ''TEMPERATURE_UNIT'' then Some ''Kelvin'' else None)"

definition london_payload :: current_payload where
  "london_payload =
     \<lparr> p_name = ''London'', p_country = ''GB'', p_temp = 1229 / 100, p_feels_like = 23 / 2,
       p_temp_min = 11, p_temp_max = 13, p_humidity = 81, p_pressure = 1012,
       p_wind_speed = 41 / 10, p_wind_deg = Some 80, p_description = ''light rain'',
       p_main = ''Rain'', p_icon = ''10d'', p_clouds = 90, p_visibility = Some 12345,
       p_sunrise = 1560343627, p_sunset = 1560396563, p_timezone = 3600 \<rparr>"

section \<open>The aggregator follows the partition into runs\<close>

lemma max_from_in_set: "max_from key best xs \<in> set (best # xs)"
  by (induction xs arbitrary: best) auto

lemma max_from_ge_best: "key best \<le> key (max_from key best xs)"
proof (induction xs arbitrary: best)
  case Nil
  then show ?case by simp
next
  case (Cons x xs)
  have "key best \<le> key (if key best < key x then x else best)" by simp
  also have "\<dots> \<le> key (max_from key (if key best < key x then x else best) xs)"
    by (rule Cons.IH)
  finally show ?case by simp
qed

lemma max_from_greatest: "y \<in> set (best # xs) \<Longrightarrow> key y \<le> key (max_from key best xs)"
proof (induction xs arbitrary: best)
  case Nil
  then show ?case by simp
next
  case (Cons x xs)
  show ?case
  proof (cases "y \<in> set xs")
    case True
    then show ?thesis using Cons.IH by simp
  next
    case False
    then have "y = best \<or> y = x" using Cons.prems by auto
    then show ?thesis
      using max_from_ge_best [of key "if key best < key x then x else best" xs]
      by (auto split: if_splits)
  qed
qed

lemma find_append_eq:
  "find P (xs @ ys) = (case find P xs of Some v \<Rightarrow> Some v | None \<Rightarrow> find P ys)"
  by (induction xs) auto

lemma max_from_first_gen:
  assumes "find (\<lambda>x. \<forall>y \<in> set pre. key y \<le> key x) pre = Some best"
  shows "find (\<lambda>x. \<forall>y \<in> set (pre @ xs). key y \<le> key x) (pre @ xs) = Some (max_from key best xs)"
  using assms
proof (induction xs arbitrary: pre best)
  case Nil
  then show ?case by simp
next
  case (Cons x xs)
  let ?b = "if key best < key x then x else best"
  have best: "best \<in> set pre" "\<forall>y \<in> set pre. key y \<le> key best"
    using Cons.prems by (auto simp: find_Some_iff)
  have "find (\<lambda>z. \<forall>y \<in> set (pre @ [x]). key y \<le> key z) (pre @ [x]) = Some ?b"
  proof (cases "key best < key x")
    case True
    have "find (\<lambda>z. \<forall>y \<in> set (pre @ [x]). key y \<le> key z) pre = None"
      using best True by (fastforce simp: find_None_iff)
    then show ?thesis using True best by (auto simp: find_append_eq)
  next
    case False
    have "find (\<lambda>z. \<forall>y \<in> set (pre @ [x]). key y \<le> key z) pre
          = find (\<lambda>z. \<forall>y \<in> set pre. key y \<le> key z) pre"
    proof (rule find_cong)
      show "pre = pre" by simp
    next
      fix z assume "z \<in> set pre"
      show "(\<forall>y \<in> set (pre @ [x]). key y \<le> key z) = (\<forall>y \<in> set pre. key y \<le> key z)"
        using best False by (auto simp: not_less)
    qed
    then show ?thesis using False Cons.prems by (simp add: find_append_eq)
  qed
  from Cons.IH [OF this] show ?case by simp
qed

lemma max_from_first:
  "find (\<lambda>x. \<forall>y \<in> set (best # xs). key y \<le> key x) (best # xs) = Some (max_from key best xs)"
  using max_from_first_gen [of "[best]" key best xs] by simp

lemma main_condition_ok:
  assumes "set_iteration set_order" and "conditions \<noteq> []"
  shows "\<exists>c. main_condition set_order conditions = Inr c \<and> c \<in> set conditions
           \<and> (\<forall>c' \<in> set conditions. count_list conditions c' \<le> count_list conditions c)"
proof -
  have s: "set (set_order conditions) = set conditions"
    using assms(1) by (simp add: set_iteration_def)
  then obtain x rest where xr: "set_order conditions = x # rest"
    using assms(2) by (cases "set_order conditions") auto
  let ?c = "max_from (count_list conditions) x rest"
  have "main_condition set_order conditions = Inr ?c"
    by (simp add: main_condition_def py_max_key_def xr)
  moreover have "?c \<in> set conditions"
    using max_from_in_set [of "count_list conditions" x rest] s xr by auto
  moreover have "\<forall>c' \<in> set conditions. count_list conditions c' \<le> count_list conditions ?c"
    using max_from_greatest [of _ x rest "count_list conditions"] s xr by auto
  ultimately show ?thesis by blast
qed

lemma matching_sample_ok:
  "c \<in> set (map s_main day_data) \<Longrightarrow> \<exists>item. matching_sample c day_data = Inr item \<and> item \<in> set day_data \<and> s_main item = c"
  by (induction day_data) (auto simp: matching_sample_def)

lemma first_sample_ok: "day_data \<noteq> [] \<Longrightarrow> first_sample day_data = Inr (hd day_data)"
  by (cases day_data) (simp_all add: first_sample_def)

lemma py_min_ok: "xs \<noteq> [] \<Longrightarrow> py_min xs = Inr (foldl min (hd xs) (tl xs))"
  by (cases xs) (simp_all add: py_min_def)

lemma py_max_ok: "xs \<noteq> [] \<Longrightarrow> py_max xs = Inr (foldl max (hd xs) (tl xs))"
  by (cases xs) (simp_all add: py_max_def)

lemma true_div_ok: "n \<noteq> 0 \<Longrightarrow> true_div a n = Inr (to_double (a / of_nat n))"
  by (simp add: true_div_def)

lemma aggregate_nonempty:
  assumes "set_iteration set_order" and "day_data \<noteq> []"
  shows "\<exists>d. aggregate_day_forecast local_date set_order day_data = Inr d"
proof -
  obtain c where c: "main_condition set_order (map s_main day_data) = Inr c"
      "c \<in> set (map s_main day_data)"
    using main_condition_ok [OF assms(1), of "map s_main day_data"] assms(2) by auto
  obtain item where item: "matching_sample c day_data = Inr item"
    using matching_sample_ok [OF c(2)] by blast
  show ?thesis
    unfolding aggregate_day_forecast_def Let_def
    using assms(2)
    by (simp add: c(1) item bind_result_def first_sample_ok py_min_ok py_max_ok true_div_ok)
qed

lemma split_runs_nonempty: "run \<noteq> [] \<Longrightarrow> split_runs ld run xs \<noteq> []"
  by (induction xs arbitrary: run) auto

lemma split_runs_no_empty_run: "[] \<notin> set (split_runs ld run xs)"
  by (induction xs arbitrary: run) auto

lemma forecast_loop_runs:
  assumes "set_iteration so" and "loop_inv ld cur day_data"
  shows "\<exists>ds. forecast_loop ld so days items daily cur day_data
                 = Inr (daily @ ds, open_run (split_runs ld day_data items))
              \<and> aggregates ld so ds
                   (take (nat days - length daily) (butlast (split_runs ld day_data items)))"
  using assms(2)
proof (induction items arbitrary: daily cur day_data)
  case Nil
  then show ?case by (simp add: open_run_def aggregates_def)
next
  case (Cons item items)
  let ?fd = "ld (s_dt item)"
  show ?case
  proof (cases "cur = Some ?fd")
    case True
    then have ne: "day_data \<noteq> []" and same: "ld (s_dt (last day_data)) = ?fd"
      using Cons.prems by (auto simp: loop_inv_def split: if_splits)
    have inv: "loop_inv ld cur (day_data @ [item])"
      using True by (simp add: loop_inv_def)
    from Cons.IH [OF inv, of daily] show ?thesis
      using True ne same by simp
  next
    case False
    have inv: "loop_inv ld (Some ?fd) [item]"
      by (simp add: loop_inv_def)
    show ?thesis
    proof (cases "day_data = []")
      case True
      from Cons.IH [OF inv, of daily] show ?thesis
        using False True by simp
    next
      case ne: False
      then have diff: "ld (s_dt (last day_data)) \<noteq> ?fd"
        using False Cons.prems by (auto simp: loop_inv_def)
      have rs: "split_runs ld day_data (item # items) = day_data # split_runs ld [item] items"
        using ne diff by simp
      have rest_ne: "split_runs ld [item] items \<noteq> []"
        by (rule split_runs_nonempty) simp
      show ?thesis
      proof (cases "int (length daily) < days")
        case True
        obtain d where d: "aggregate_day_forecast ld so day_data = Inr d"
          using aggregate_nonempty [OF assms(1) ne] by blast
        obtain ds where ds:
          "forecast_loop ld so days items (daily @ [d]) (Some ?fd) [item]
             = Inr ((daily @ [d]) @ ds, open_run (split_runs ld [item] items))"
          "aggregates ld so ds
             (take (nat days - length (daily @ [d])) (butlast (split_runs ld [item] items)))"
          using Cons.IH [OF inv, of "daily @ [d]"] by blast
        have "nat days - length daily = Suc (nat days - length (daily @ [d]))"
          using True by simp
        then have "aggregates ld so (d # ds)
             (take (nat days - length daily) (butlast (split_runs ld day_data (item # items))))"
          using ds(2) d rest_ne by (simp add: rs aggregates_def del: split_runs.simps)
        moreover have "forecast_loop ld so days (item # items) daily cur day_data
             = Inr (daily @ d # ds, open_run (split_runs ld day_data (item # items)))"
          using False ne True d ds(1) rest_ne by (simp add: bind_result_def rs open_run_def del: split_runs.simps)
        ultimately show ?thesis by blast
      next
        case nobudget: False
        then have z: "nat days - length daily = 0" by linarith
        obtain ds where ds:
          "forecast_loop ld so days items daily (Some ?fd) [item]
             = Inr (daily @ ds, open_run (split_runs ld [item] items))"
          "aggregates ld so ds
             (take (nat days - length daily) (butlast (split_runs ld [item] items)))"
          using Cons.IH [OF inv, of daily] by blast
        have "ds = []" using ds(2) z by (simp add: aggregates_def)
        then show ?thesis
          using False ne nobudget ds(1) rest_ne z
          by (simp add: rs open_run_def aggregates_def del: split_runs.simps)
      qed
    qed
  qed
qed

lemma process_forecast_runs:
  assumes "set_iteration so"
  shows "\<exists>ds. process_forecast ld so data days = Inr ds
              \<and> aggregates ld so ds (take (nat days) (date_runs ld data))"
proof -
  let ?rs = "date_runs ld data"
  obtain ds0 where loop:
    "forecast_loop ld so days data [] None [] = Inr (ds0, open_run ?rs)"
    "aggregates ld so ds0 (take (nat days) (butlast ?rs))"
    using forecast_loop_runs [OF assms, of ld None "[]" days data "[]"]
    by (auto simp: loop_inv_def date_runs_def)
  have len0: "length ds0 = min (nat days) (length ?rs - 1)"
    using loop(2) by (auto simp: aggregates_def dest: list_all2_lengthD)
  show ?thesis
  proof (cases "?rs = []")
    case True
    then show ?thesis
      using loop by (simp add: process_forecast_def bind_result_def open_run_def slice_to_def aggregates_def)
  next
    case False
    then have last_ne: "last ?rs \<noteq> []"
      using split_runs_no_empty_run [of ld "[]" data] last_in_set [of ?rs]
      by (metis date_runs_def)
    have split: "?rs = butlast ?rs @ [last ?rs]"
      using False by simp
    show ?thesis
    proof (cases "int (length ds0) < days")
      case True
      obtain d where d: "aggregate_day_forecast ld so (last ?rs) = Inr d"
        using aggregate_nonempty [OF assms last_ne] by blast
      have short: "length (butlast ?rs) < nat days"
        using True len0 by simp
      then have all: "take (nat days) (butlast ?rs) = butlast ?rs" "take (nat days) ?rs = ?rs"
        by simp_all
      have "aggregates ld so (ds0 @ [d]) (butlast ?rs @ [last ?rs])"
        using loop(2) d all(1) by (simp add: aggregates_def list_all2_appendI)
      then have "aggregates ld so (ds0 @ [d]) (take (nat days) ?rs)"
        using split all(2) by simp
      moreover have "slice_to (ds0 @ [d]) days = ds0 @ [d]"
        using True short len0 by (simp add: slice_to_def)
      ultimately show ?thesis
        using loop(1) False last_ne True d
        by (simp add: process_forecast_def bind_result_def open_run_def)
    next
      case nobudget: False
      have "nat days < length ?rs"
        using nobudget len0 False by (cases ?rs) (auto simp: min_def split: if_splits)
      then have "take (nat days) ?rs = take (nat days) (butlast ?rs)"
        by (simp add: take_butlast)
      moreover have "slice_to ds0 days = ds0"
        using nobudget len0 by (simp add: slice_to_def min_def split: if_splits)
      ultimately show ?thesis
        using loop nobudget by (simp add: process_forecast_def bind_result_def)
    qed
  qed
qed

lemma aggregate_date:
  "aggregate_day_forecast ld so run = Inr d \<Longrightarrow> fd_date d = ld (s_dt (hd run))"
  by (cases run)
     (auto simp: aggregate_day_forecast_def Let_def bind_result_def first_sample_def
           split: sum.splits)

lemma aggregates_dates:
  "aggregates ld so ds runs \<Longrightarrow> map fd_date ds = map (\<lambda>run. ld (s_dt (hd run))) runs"
  unfolding aggregates_def
  by (induction ds runs rule: list_all2_induct) (auto simp: aggregate_date)

lemma aggregate_empty:
  assumes "set_iteration so"
  shows "aggregate_day_forecast ld so [] = Inl ValueError"
proof -
  have "set (so []) = {}"
    using assms by (simp add: set_iteration_def)
  then have "so [] = []" by simp
  then show ?thesis
    by (simp add: aggregate_day_forecast_def main_condition_def py_max_key_def bind_result_def)
qed

text \<open>
  Claim C3. The forecast sequence is never longer than the requested day count (a negative
  count gives the empty sequence), and it holds the aggregates of the first \<open>days\<close> runs
  of the input, in order: a 7-day input with \<open>days = 3\<close> gives exactly the first three
  calendar days.
\<close>

theorem process_forecast_length_bounded:
  assumes "set_iteration set_order"
  shows "\<exists>ds. process_forecast local_date set_order data days = Inr ds
            \<and> int (length ds) \<le> max 0 days
            \<and> length ds = min (nat days) (length (date_runs local_date data))
            \<and> aggregates local_date set_order ds (take (nat days) (date_runs local_date data))
            \<and> map fd_date ds
                = map (\<lambda>run. local_date (s_dt (hd run))) (take (nat days) (date_runs local_date data))"
proof -
  obtain ds where ds: "process_forecast local_date set_order data days = Inr ds"
      "aggregates local_date set_order ds (take (nat days) (date_runs local_date data))"
    using process_forecast_runs [OF assms] by blast
  have len: "length ds = min (nat days) (length (date_runs local_date data))"
    using ds(2) by (auto simp: aggregates_def dest: list_all2_lengthD)
  then have "int (length ds) \<le> max 0 days" by linarith
  then show ?thesis
    using ds len aggregates_dates [OF ds(2)] by blast
qed

lemma week_runs: "map (map s_dt) (date_runs utc_date week_data) =
   [[0, 43200], [86400, 129600], [172800, 216000], [259200, 302400],
    [345600, 388800], [432000, 475200], [518400, 561600]]"
  by code_simp

theorem process_forecast_length_bounded_witness:
  "set_iteration remdups
   \<and> length (date_runs utc_date week_data) = 7
   \<and> (\<exists>ds. process_forecast utc_date remdups week_data 3 = Inr ds
          \<and> length ds = 3 \<and> map fd_date ds = [0, 1, 2])"
proof -
  have h: "set_iteration remdups"
    by (simp add: set_iteration_def)
  have len: "length (date_runs utc_date week_data) = 7"
    using arg_cong [OF week_runs, of length] by simp
  have dates: "map (\<lambda>run. utc_date (s_dt (hd run))) (take 3 (date_runs utc_date week_data)) = [0, 1, 2]"
    by code_simp
  from process_forecast_length_bounded [OF h, of utc_date week_data 3]
  show ?thesis using h len dates by auto
qed

text \<open>
  Claim C9. \<open>_process_forecast\<close> never raises: every run it aggregates is non-empty. On
  the empty list the aggregator would raise; on a non-empty run its divisions by the length,
  its access to the first sample and its search for a sample of the dominant condition all
  succeed.
\<close>

theorem aggregate_never_called_on_empty_run:
  assumes "set_iteration set_order"
  shows "(\<exists>ds. process_forecast local_date set_order data days = Inr ds)
       \<and> [] \<notin> set (date_runs local_date data)
       \<and> aggregate_day_forecast local_date set_order [] = Inl ValueError
       \<and> (\<forall>run. run \<noteq> [] \<longrightarrow>
            (\<exists>avg hum first c item d.
               true_div (py_sum (map s_temp run)) (length run) = Inr avg
             \<and> true_div (of_int (sum_list (map s_humidity run))) (length run) = Inr hum
             \<and> first_sample run = Inr first
             \<and> main_condition set_order (map s_main run) = Inr c
             \<and> matching_sample c run = Inr item \<and> s_main item = c
             \<and> aggregate_day_forecast local_date set_order run = Inr d))"
proof -
  have "\<exists>ds. process_forecast local_date set_order data days = Inr ds"
    using process_forecast_runs [OF assms] by blast
  moreover have "[] \<notin> set (date_runs local_date data)"
    by (simp add: date_runs_def split_runs_no_empty_run)
  moreover have "\<exists>avg hum first c item d.
               true_div (py_sum (map s_temp run)) (length run) = Inr avg
             \<and> true_div (of_int (sum_list (map s_humidity run))) (length run) = Inr hum
             \<and> first_sample run = Inr first
             \<and> main_condition set_order (map s_main run) = Inr c
             \<and> matching_sample c run = Inr item \<and> s_main item = c
             \<and> aggregate_day_forecast local_date set_order run = Inr d"
    if ne: "run \<noteq> []" for run
  proof -
    obtain c where c: "main_condition set_order (map s_main run) = Inr c"
        "c \<in> set (map s_main run)"
      using main_condition_ok [OF assms, of "map s_main run"] ne by auto
    obtain item where item: "matching_sample c run = Inr item" "s_main item = c"
      using matching_sample_ok [OF c(2)] by blast
    obtain d where "aggregate_day_forecast local_date set_order run = Inr d"
      using aggregate_nonempty [OF assms ne] by blast
    then show ?thesis
      using ne c(1) item by (simp add: true_div_ok first_sample_ok)
  qed
  ultimately show ?thesis
    using aggregate_empty [OF assms] by blast
qed

theorem aggregate_never_called_on_empty_run_witness:
  "set_iteration remdups
   \<and> (\<exists>ds. process_forecast utc_date remdups week_data 5 = Inr ds)
   \<and> (\<exists>c item. main_condition remdups (map s_main [sample_at 0 10 ''Rain'']) = Inr c
          \<and> matching_sample c [sample_at 0 10 ''Rain''] = Inr item)"
proof -
  have h: "set_iteration remdups"
    by (simp add: set_iteration_def)
  from aggregate_never_called_on_empty_run [OF h, of utc_date week_data 5]
  show ?thesis using h by blast
qed

section \<open>The dominant condition\<close>

lemma aggregate_main:
  assumes "aggregate_day_forecast ld so run = Inr d"
  shows "main_condition so (map s_main run) = Inr (fd_main d)
       \<and> (\<exists>item. find (\<lambda>item. s_main item = fd_main d) run = Some item
              \<and> fd_description d = title (s_description item) \<and> fd_icon d = s_icon item)"
  using assms
  by (auto simp: aggregate_day_forecast_def Let_def bind_result_def matching_sample_def
           split: sum.splits option.splits)

lemma main_condition_first:
  assumes "main_condition so conditions = Inr c"
  shows "find (\<lambda>x. \<forall>y \<in> set (so conditions). count_list conditions y \<le> count_list conditions x)
           (so conditions) = Some c"
proof -
  obtain x rest where xr: "so conditions = x # rest" and c: "c = max_from (count_list conditions) x rest"
    using assms by (auto simp: main_condition_def py_max_key_def split: list.splits)
  show ?thesis
    unfolding xr c by (rule max_from_first)
qed

text \<open>
  Claim C1, as the code has it. The dominant condition of a non-empty run is a condition
  group of the run with the highest occurrence count; among groups with the same highest
  count it is the first one in the iteration order of the set of the run's groups, not in
  the order of the run. Description and icon come from the first sample of that group.
\<close>

theorem dominant_condition_most_frequent:
  assumes "set_iteration set_order" and "run \<noteq> []"
  shows "\<exists>d item. aggregate_day_forecast local_date set_order run = Inr d
           \<and> fd_main d \<in> set (map s_main run)
           \<and> (\<forall>c \<in> set (map s_main run).
                 count_list (map s_main run) c \<le> count_list (map s_main run) (fd_main d))
           \<and> find (\<lambda>c. \<forall>c' \<in> set (map s_main run).
                        count_list (map s_main run) c' \<le> count_list (map s_main run) c)
                 (set_order (map s_main run)) = Some (fd_main d)
           \<and> find (\<lambda>item. s_main item = fd_main d) run = Some item
           \<and> fd_description d = title (s_description item) \<and> fd_icon d = s_icon item"
proof -
  let ?cs = "map s_main run"
  obtain d where d: "aggregate_day_forecast local_date set_order run = Inr d"
    using aggregate_nonempty [OF assms] by blast
  have m: "main_condition set_order ?cs = Inr (fd_main d)"
    using aggregate_main [OF d] by simp
  obtain item where item: "find (\<lambda>item. s_main item = fd_main d) run = Some item"
      "fd_description d = title (s_description item)" "fd_icon d = s_icon item"
    using aggregate_main [OF d] by blast
  have s: "set (set_order ?cs) = set ?cs"
    using assms(1) by (simp add: set_iteration_def)
  have "?cs \<noteq> []" using assms(2) by simp
  from main_condition_ok [OF assms(1) this] m
  have best: "fd_main d \<in> set ?cs"
      "\<forall>c \<in> set ?cs. count_list ?cs c \<le> count_list ?cs (fd_main d)"
    by auto
  have "find (\<lambda>c. \<forall>c' \<in> set ?cs. count_list ?cs c' \<le> count_list ?cs c) (set_order ?cs)
          = Some (fd_main d)"
    using main_condition_first [OF m] s by simp
  then show ?thesis
    using d best item by blast
qed

theorem dominant_condition_most_frequent_witness:
  "set_iteration remdups \<and> tie_run \<noteq> []
   \<and> (\<exists>d. aggregate_day_forecast utc_date remdups tie_run = Inr d \<and> fd_main d = ''Rain'')
   \<and> (\<exists>d. aggregate_day_forecast utc_date clouds_first tie_run = Inr d \<and> fd_main d = ''Clouds'')"
proof -
  have h: "set_iteration remdups"
    by (simp add: set_iteration_def)
  have h2: "set_iteration clouds_first"
    by (simp add: set_iteration_def clouds_first_def)
  have ne: "tie_run \<noteq> []"
    by (simp add: tie_run_def)
  have cs: "map s_main tie_run = [''Rain'', ''Clouds'', ''Rain'', ''Clouds'']"
    by (simp add: tie_run_def sample_at_def)
  from dominant_condition_most_frequent [OF h ne, of utc_date]
  have "\<exists>d. aggregate_day_forecast utc_date remdups tie_run = Inr d \<and> fd_main d = ''Rain''"
    unfolding cs by auto
  moreover from dominant_condition_most_frequent [OF h2 ne, of utc_date]
  have "\<exists>d. aggregate_day_forecast utc_date clouds_first tie_run = Inr d \<and> fd_main d = ''Clouds''"
    unfolding cs by (auto simp: clouds_first_def)
  ultimately show ?thesis using h ne by blast
qed

text \<open>
  The run [Rain, Clouds, Rain, Clouds] resolves to Clouds when the set of its groups is
  iterated with Clouds first, although Rain occurs first in the run.
\<close>

theorem tie_break_counterexample:
  "set_iteration clouds_first
   \<and> map s_main tie_run = [''Rain'', ''Clouds'', ''Rain'', ''Clouds'']
   \<and> main_condition clouds_first (map s_main tie_run) = Inr ''Clouds''"
  by (simp add: set_iteration_def clouds_first_def tie_run_def sample_at_def main_condition_def
        py_max_key_def)

section \<open>Dates of the forecast days\<close>

lemma split_runs_heads:
  assumes "run \<noteq> []" and "\<forall>s \<in> set run. sample_date ld s = d"
  shows "map (\<lambda>r. sample_date ld (hd r)) (split_runs ld run xs)
         = remdups_adj (d # map (sample_date ld) xs)"
  using assms
proof (induction xs arbitrary: run d)
  case Nil
  then have "sample_date ld (hd run) = d" by simp
  then show ?case using Nil by simp
next
  case (Cons x xs)
  have first: "sample_date ld (hd run) = d" and final: "sample_date ld (last run) = d"
    using Cons.prems by simp_all
  show ?case
  proof (cases "sample_date ld x = d")
    case True
    have "\<forall>s \<in> set (run @ [x]). sample_date ld s = d"
      using Cons.prems(2) True by simp
    then have "map (\<lambda>r. sample_date ld (hd r)) (split_runs ld (run @ [x]) xs)
          = remdups_adj (d # map (sample_date ld) xs)"
      by (intro Cons.IH) simp
    moreover have "split_runs ld run (x # xs) = split_runs ld (run @ [x]) xs"
      using True final by (simp add: sample_date_def)
    ultimately show ?thesis using True by simp
  next
    case False
    have "map (\<lambda>r. sample_date ld (hd r)) (split_runs ld [x] xs)
          = remdups_adj (sample_date ld x # map (sample_date ld) xs)"
      by (intro Cons.IH) simp_all
    moreover have "split_runs ld run (x # xs) = run # split_runs ld [x] xs"
      using False final Cons.prems(1) by (simp add: sample_date_def)
    ultimately show ?thesis using False first by simp
  qed
qed

lemma date_runs_heads:
  "map (\<lambda>r. sample_date ld (hd r)) (date_runs ld xs) = remdups_adj (map (sample_date ld) xs)"
proof (cases xs)
  case Nil
  then show ?thesis by (simp add: date_runs_def)
next
  case (Cons x rest)
  have "map (\<lambda>r. sample_date ld (hd r)) (split_runs ld [x] rest)
        = remdups_adj (sample_date ld x # map (sample_date ld) rest)"
    by (intro split_runs_heads) simp_all
  then show ?thesis using Cons by (simp add: date_runs_def)
qed

lemma split_runs_concat: "concat (split_runs ld run xs) = run @ xs"
  by (induction xs arbitrary: run) auto

lemma date_runs_concat: "concat (date_runs ld xs) = xs"
  by (simp add: date_runs_def split_runs_concat)

lemma sorted_dates:
  assumes "mono ld" and "sorted (map s_dt xs)"
  shows "sorted (map (sample_date ld) xs)"
proof -
  have "sorted_wrt (\<lambda>x y. s_dt x \<le> s_dt y) xs"
    using assms(2) by (simp add: sorted_map)
  then have "sorted_wrt (\<lambda>x y. sample_date ld x \<le> sample_date ld y) xs"
    by (rule sorted_wrt_mono_rel [rotated]) (simp add: sample_date_def monoD [OF assms(1)])
  then show ?thesis by (simp add: sorted_map)
qed

lemma strict_sorted_remdups_adj:
  "sorted (xs :: int list) \<Longrightarrow> sorted_wrt (<) (remdups_adj xs)"
proof (induction xs rule: remdups_adj.induct)
  case 1
  then show ?case by simp
next
  case (2 x)
  then show ?case by simp
next
  case (3 x y xs)
  show ?case
  proof (cases "x = y")
    case True
    then show ?thesis using 3 by simp
  next
    case False
    have "sorted_wrt (<) (remdups_adj (y # xs))"
      using 3 False by simp
    moreover have "\<forall>z \<in> set (y # xs). x < z"
      using "3.prems" False by (auto simp: order_less_le)
    ultimately show ?thesis
      using False remdups_adj_set [of "y # xs"] by (simp del: remdups_adj_set)
  qed
qed

text \<open>
  Claim C6. For samples in ascending timestamp order that span exactly five calendar days
  (with a calendar date that never decreases as time goes on), aggregation with
  \<open>days = 5\<close> gives exactly five forecast days, with strictly increasing dates and no date
  twice. The days are the aggregates of the runs of the input, which keep the input's order
  and begin exactly where the date differs from the previous sample's.
\<close>

theorem five_days_strictly_increasing:
  assumes "set_iteration set_order"
    and "mono local_date"
    and "sorted (map s_dt data)"
    and "card (sample_date local_date ` set data) = 5"
  shows "\<exists>ds. process_forecast local_date set_order data 5 = Inr ds
            \<and> length ds = 5
            \<and> sorted_wrt (<) (map fd_date ds)
            \<and> distinct (map fd_date ds)
            \<and> map fd_date ds = remdups_adj (map (sample_date local_date) data)
            \<and> aggregates local_date set_order ds (date_runs local_date data)
            \<and> concat (date_runs local_date data) = data"
proof -
  let ?dates = "map (sample_date local_date) data"
  let ?rs = "date_runs local_date data"
  have srt: "sorted ?dates"
    using sorted_dates [OF assms(2,3)] .
  have strict0: "sorted_wrt (<) (remdups_adj ?dates)"
    using srt by (rule strict_sorted_remdups_adj)
  then have dist: "distinct (remdups_adj ?dates)"
    by (simp add: strict_sorted_iff)
  have "card (set (remdups_adj ?dates)) = length (remdups_adj ?dates)"
    using dist by (rule distinct_card)
  then have "length (remdups_adj ?dates) = 5"
    using assms(4) by simp
  then have len: "length ?rs = 5"
    using arg_cong [OF date_runs_heads [of local_date data], of length] by simp
  obtain ds where ds: "process_forecast local_date set_order data 5 = Inr ds"
      "aggregates local_date set_order ds (take (nat 5) ?rs)"
    using process_forecast_runs [OF assms(1)] by blast
  have agg: "aggregates local_date set_order ds ?rs"
    using ds(2) len by simp
  have dates: "map fd_date ds = remdups_adj ?dates"
    using aggregates_dates [OF agg] date_runs_heads [of local_date data]
    by (simp add: sample_date_def)
  have strict: "sorted_wrt (<) (map fd_date ds)"
    using strict0 dates by simp
  have "length ds = 5"
    using agg len by (auto simp: aggregates_def dest: list_all2_lengthD)
  moreover have "distinct (map fd_date ds)"
    using dist dates by simp
  ultimately show ?thesis
    using ds(1) strict dates agg date_runs_concat [of local_date data] by blast
qed

lemma five_day_dts: "map s_dt five_day_data = map (\<lambda>i. int i * 10800) [0..<40]"
  by (simp add: five_day_data_def sample_at_def comp_def)

lemma five_day_dates:
  "map (sample_date utc_date) five_day_data
   = replicate 8 0 @ replicate 8 1 @ replicate 8 2 @ replicate 8 3 @ replicate 8 4"
  by code_simp

theorem five_days_strictly_increasing_witness:
  "set_iteration remdups \<and> mono utc_date \<and> sorted (map s_dt five_day_data)
   \<and> length five_day_data = 40
   \<and> card (sample_date utc_date ` set five_day_data) = 5
   \<and> (\<exists>ds. process_forecast utc_date remdups five_day_data 5 = Inr ds
          \<and> map fd_date ds = [0, 1, 2, 3, 4])"
proof -
  have h: "set_iteration remdups"
    by (simp add: set_iteration_def)
  have m: "mono utc_date"
    by (simp add: mono_def utc_date_def zdiv_mono1)
  have s: "sorted (map s_dt five_day_data)"
    unfolding five_day_dts by code_simp
  have l: "length five_day_data = 40"
    by (simp add: five_day_data_def)
  have "sample_date utc_date ` set five_day_data = set (map (sample_date utc_date) five_day_data)"
    by simp
  also have "\<dots> = {0, 1, 2, 3, 4}"
    unfolding five_day_dates by auto
  finally have c: "card (sample_date utc_date ` set five_day_data) = 5"
    by simp
  have r: "remdups_adj (map (sample_date utc_date) five_day_data) = [0, 1, 2, 3, 4]"
    unfolding five_day_dates by code_simp
  from five_days_strictly_increasing [OF h m s c]
  show ?thesis using h m s l c r by auto
qed

section \<open>Fault classification and the forecast request\<close>

lemma str_int_examples: "str_int 401 = ''401''" "str_int 500 = ''500''"
  by code_simp+

lemma lower_kelvin: "lower ''Kelvin'' = ''kelvin''"
  by code_simp

text \<open>
  Claim C2. \<open>get_current_weather\<close> classifies as the claim says: 404 is not-found with
  the city's name, 401 is unauthorized whatever the body, a timeout is a timeout (also a
  connect timeout, which is a connection error too), a connection error is a connection
  failure, and any other status but 200 is the generic error with the status code and the
  body. \<open>get_forecast\<close> does so for 404 only: its 401 is the generic error with the status
  code, and every transport exception is the one generic fetch error.
\<close>

theorem forecast_fault_classification_differs:
  "get_current_weather (replies (Response 404 body json)) now city api_units
     = Inl (WeatherAPIError (''City '' @ quoted city @ '' not found. Please check the spelling.''))
 \<and> get_current_weather (replies (Response 401 body json)) now city api_units
     = Inl (WeatherAPIError ''Invalid API key. Please check your configuration.'')
 \<and> get_current_weather (replies (Raised ReadTimeout msg)) now city api_units
     = Inl (WeatherAPIError ''Request timed out. Please check your internet connection.'')
 \<and> get_current_weather (replies (Raised ConnectTimeout msg)) now city api_units
     = Inl (WeatherAPIError ''Request timed out. Please check your internet connection.'')
 \<and> get_current_weather (replies (Raised ConnectionError msg)) now city api_units
     = Inl (WeatherAPIError ''Connection error. Please check your internet connection.'')
 \<and> get_current_weather (replies (Response 500 body json)) now city api_units
     = Inl (WeatherAPIError (''API error: 500 - '' @ body))
 \<and> get_forecast local_date set_order (replies (Response 404 body list)) city api_units days
     = Inl (WeatherAPIError (''City '' @ quoted city @ '' not found for forecast.''))
 \<and> get_forecast local_date set_order (replies (Response 401 body list)) city api_units days
     = Inl (WeatherAPIError ''Forecast API error: 401'')
 \<and> get_forecast local_date set_order (replies (Raised ReadTimeout msg)) city api_units days
     = Inl (WeatherAPIError (''Forecast fetch error: '' @ msg))
 \<and> get_forecast local_date set_order (replies (Raised ConnectionError msg)) city api_units days
     = Inl (WeatherAPIError (''Forecast fetch error: '' @ msg))"
  by (simp add: get_current_weather_def current_result_def get_forecast_def forecast_result_def
        replies_def is_timeout_def is_connection_error_def str_int_examples)

lemma forecast_result_ok:
  assumes "set_iteration so"
  shows "\<exists>ds. forecast_result ld so city days (Response 200 body json) = Inr ds
            \<and> process_forecast ld so json days = Inr ds
            \<and> length ds = min (nat days) (length (date_runs ld json))"
proof -
  obtain ds where ds: "process_forecast ld so json days = Inr ds"
      "aggregates ld so ds (take (nat days) (date_runs ld json))"
    using process_forecast_runs [OF assms] by blast
  have "length ds = min (nat days) (length (date_runs ld json))"
    using ds(2) by (auto simp: aggregates_def dest: list_all2_lengthD)
  then show ?thesis
    using ds(1) by (simp add: forecast_result_def)
qed

text \<open>
  Claim C5, as the code has it. \<open>get_forecast\<close> sends the sample count
  \<open>min (days * 8) 40\<close>, which never exceeds 40, and hands the day count as it is to
  \<open>_process_forecast\<close>: it neither validates nor clamps it.
\<close>

theorem forecast_sample_count_capped:
  "get_forecast local_date set_order session_get city api_units days
     = forecast_result local_date set_order city days
         (session_get forecast_url (forecast_params city api_units days))
 \<and> forecast_params city api_units days
     = \<lparr> q = city, units = api_units, cnt = Some (min (days * 8) 40) \<rparr>
 \<and> min (days * 8) 40 \<le> 40
 \<and> forecast_result local_date set_order city days (Response 200 body json)
     = (case process_forecast local_date set_order json days of
          Inl e \<Rightarrow> Inl (Unhandled e) | Inr daily \<Rightarrow> Inr daily)"
  by (simp add: get_forecast_def forecast_params_def forecast_result_def)

lemma six_date_runs: "length (date_runs utc_date six_date_data) = 6"
  by code_simp

text \<open>
  With \<open>days = 6\<close> and the provider's 40 samples starting at noon, which touch six
  calendar dates, the forecast has six entries; with \<open>days = 0\<close> the sample count sent
  is 0.
\<close>

theorem day_count_not_clamped_counterexample:
  "forecast_length (get_forecast utc_date remdups (replies (Response 200 [] six_date_data))
     ''London'' ''metric'' 6) = Some 6
 \<and> cnt (forecast_params ''London'' ''metric'' 6) = Some 40
 \<and> cnt (forecast_params ''London'' ''metric'' 0) = Some 0"
proof -
  have h: "set_iteration remdups"
    by (simp add: set_iteration_def)
  obtain ds where "forecast_result utc_date remdups ''London'' 6 (Response 200 [] six_date_data) = Inr ds"
      "length ds = min (nat 6) (length (date_runs utc_date six_date_data))"
    using forecast_result_ok [OF h] by blast
  then show ?thesis
    by (simp add: get_forecast_def replies_def forecast_length_def six_date_runs forecast_params_def)
qed

section \<open>The unit toggle\<close>

lemma fetch_weather_unit: "temperature_unit (fetch_weather session_get now app city) = temperature_unit app"
  by (simp add: fetch_weather_def split: sum.splits)

lemma toggle_unit:
  "temperature_unit (toggle_temperature_unit session_get now app)
   = (if temperature_unit app = ''celsius'' then ''fahrenheit'' else ''celsius'')"
  by (simp add: toggle_temperature_unit_def Let_def fetch_weather_unit)

text \<open>
  Claim C10. After one call of the toggle the unit is \<open>celsius\<close> or \<open>fahrenheit\<close>,
  whatever it was before and whatever the refresh of the weather does; from either of the
  two values, two calls give the value back.
\<close>

theorem toggle_unit_two_valued:
  "temperature_unit (toggle_temperature_unit session_get now app) \<in> {''celsius'', ''fahrenheit''}
 \<and> (temperature_unit app \<in> {''celsius'', ''fahrenheit''} \<longrightarrow>
      temperature_unit (toggle_temperature_unit session_get' now'
        (toggle_temperature_unit session_get now app)) = temperature_unit app)"
  by (auto simp: toggle_unit)

theorem toggle_unit_two_valued_witness:
  "unit_of (new_app (load_config kelvin_env)) = Some ''kelvin''
 \<and> unit_of (map_sum id (toggle_temperature_unit (replies (Raised ReadTimeout [])) 0)
      (new_app (load_config kelvin_env))) = Some ''celsius''
 \<and> temperature_unit (toggle_temperature_unit (replies (Raised ReadTimeout [])) 0
      (toggle_temperature_unit (replies (Raised ReadTimeout [])) 0
         \<lparr> current_city = ''London'', temperature_unit = ''fahrenheit'',
           current_weather = None, forecast_data = None \<rparr>)) = ''fahrenheit''"
proof -
  let ?app = "\<lparr> current_city = ''London'', temperature_unit = ''fahrenheit'',
           current_weather = None, forecast_data = None \<rparr>"
  have k: "new_app (load_config kelvin_env)
           = Inr \<lparr> current_city = ''London'', temperature_unit = ''kelvin'',
                   current_weather = None, forecast_data = None \<rparr>"
    by (simp add: new_app_def load_config_def kelvin_env_def get_or_def lower_kelvin)
  have "temperature_unit ?app \<in> {''celsius'', ''fahrenheit''}" by simp
  with toggle_unit_two_valued [of "replies (Raised ReadTimeout [])" 0 ?app
         "replies (Raised ReadTimeout [])" 0]
  have "temperature_unit (toggle_temperature_unit (replies (Raised ReadTimeout [])) 0
      (toggle_temperature_unit (replies (Raised ReadTimeout [])) 0 ?app)) = ''fahrenheit''"
    by simp
  moreover from toggle_unit_two_valued [of "replies (Raised ReadTimeout [])" 0
      "\<lparr> current_city = ''London'', temperature_unit = ''kelvin'',
                   current_weather = None, forecast_data = None \<rparr>"]
  have "unit_of (map_sum id (toggle_temperature_unit (replies (Raised ReadTimeout [])) 0)
      (new_app (load_config kelvin_env))) = Some ''celsius''"
    unfolding k by (simp add: unit_of_def toggle_unit)
  ultimately show ?thesis
    by (simp add: k unit_of_def)
qed

section \<open>Rounding to a float is monotone\<close>

lemma two_powi_nat: "0 \<le> k \<Longrightarrow> (2::rat) powi k = of_int (2 ^ nat k)"
  by (simp add: power_int_nonneg_exp)

lemma two_powi_add: "(2::rat) powi (a + b) = 2 powi a * 2 powi b"
  by (simp add: power_int_add)

lemma two_powi_diff: "(2::rat) powi (a - b) = 2 powi a / 2 powi b"
  by (simp add: power_int_diff)

lemma binary_exponent_bounds:
  assumes "x \<noteq> 0"
  shows "2 powi (binary_exponent x) \<le> \<bar>x\<bar>" and "\<bar>x\<bar> < 2 powi (binary_exponent x + 1)"
proof -
  obtain n d where q: "quotient_of \<bar>x\<bar> = (n, d)"
    by (cases "quotient_of \<bar>x\<bar>") auto
  have d: "0 < d" using quotient_of_denom_pos [OF q] .
  have x: "\<bar>x\<bar> = of_int n / of_int d" using quotient_of_div [OF q] .
  have n: "0 < n"
  proof -
    have "0 < \<bar>x\<bar>" using assms by simp
    then have "0 < (of_int n :: rat) / of_int d" using x by simp
    then show ?thesis using d by (simp add: zero_less_divide_iff)
  qed
  let ?bn = "bitlen n" and ?bd = "bitlen d"
  let ?e = "?bn - ?bd"
  have bn: "1 \<le> ?bn" and bd: "1 \<le> ?bd"
    using n d bitlen_eq_zero_iff [of n] bitlen_eq_zero_iff [of d] bitlen_nonneg [of n]
      bitlen_nonneg [of d] by linarith+
  have N1: "(2::rat) powi (?bn - 1) \<le> of_int n"
    using bitlen_bounds [OF n] bn by (simp add: two_powi_nat del: of_int_power)
  have N2: "of_int n < (2::rat) powi ?bn"
    using bitlen_bounds [OF n] bn by (simp add: two_powi_nat del: of_int_power)
  have D1: "(2::rat) powi (?bd - 1) \<le> of_int d"
    using bitlen_bounds [OF d] bd by (simp add: two_powi_nat del: of_int_power)
  have D2: "of_int d < (2::rat) powi ?bd"
    using bitlen_bounds [OF d] bd by (simp add: two_powi_nat del: of_int_power)
  have "\<bar>x\<bar> < 2 powi ?bn / 2 powi (?bd - 1)"
    unfolding x using n N2 D1 by (intro frac_less) auto
  also have "\<dots> = 2 powi (?bn - (?bd - 1))"
    by (simp only: two_powi_diff)
  also have "?bn - (?bd - 1) = ?e + 1"
    by simp
  finally have upper: "\<bar>x\<bar> < 2 powi (?e + 1)" .
  have "2 powi (?bn - 1) / 2 powi ?bd < \<bar>x\<bar>"
    unfolding x using d N1 D2 by (intro frac_less2) auto
  moreover have "2 powi (?bn - 1) / 2 powi ?bd = (2::rat) powi (?bn - 1 - ?bd)"
    by (simp only: two_powi_diff)
  moreover have "?bn - 1 - ?bd = ?e - 1"
    by simp
  ultimately have lower: "2 powi (?e - 1) < \<bar>x\<bar>" by simp
  have e: "binary_exponent x = (if 2 powi ?e \<le> \<bar>x\<bar> then ?e else ?e - 1)"
    by (simp add: binary_exponent_def q)
  show "2 powi (binary_exponent x) \<le> \<bar>x\<bar>"
    using lower by (simp add: e)
  show "\<bar>x\<bar> < 2 powi (binary_exponent x + 1)"
    using upper by (simp add: e not_le)
qed

lemma round_half_even_bounds:
  "\<lfloor>x\<rfloor> \<le> round_half_even x" "round_half_even x \<le> \<lfloor>x\<rfloor> + 1"
  by (simp_all add: round_half_even_def Let_def)

lemma round_half_even_of_int [simp]: "round_half_even (of_int k) = k"
  by (simp add: round_half_even_def)

lemma round_half_even_mono:
  assumes "x \<le> y"
  shows "round_half_even x \<le> round_half_even y"
proof (cases "\<lfloor>x\<rfloor> = \<lfloor>y\<rfloor>")
  case True
  then show ?thesis
    using assms by (simp add: round_half_even_def Let_def)
next
  case False
  then have "\<lfloor>x\<rfloor> < \<lfloor>y\<rfloor>"
    using floor_mono [OF assms] by simp
  then show ?thesis
    using round_half_even_bounds(2) [of x] round_half_even_bounds(1) [of y] by linarith
qed

lemma binary_exponent_mono:
  assumes "0 < a" and "a \<le> b"
  shows "binary_exponent a \<le> binary_exponent b"
proof (rule ccontr)
  assume "\<not> binary_exponent a \<le> binary_exponent b"
  then have "binary_exponent b + 1 \<le> binary_exponent a" by simp
  then have "(2::rat) powi (binary_exponent b + 1) \<le> 2 powi (binary_exponent a)"
    by (intro power_int_increasing) simp_all
  moreover have "2 powi (binary_exponent a) \<le> \<bar>a\<bar>"
    using assms by (intro binary_exponent_bounds) simp
  moreover have "\<bar>b\<bar> < 2 powi (binary_exponent b + 1)"
    using assms by (intro binary_exponent_bounds) simp
  ultimately show False using assms by simp
qed

lemma to_double_pos:
  "0 < x \<Longrightarrow> to_double x = of_int (round_half_even (x / 2 powi last_place x)) * 2 powi last_place x"
  by (simp add: to_double_def last_place_def Let_def)

lemma to_double_nonneg: "0 \<le> x \<Longrightarrow> 0 \<le> to_double x"
proof (cases "x = 0")
  case True
  then show ?thesis by (simp add: to_double_def)
next
  case False
  assume "0 \<le> x"
  then have pos: "0 < x" using False by simp
  have "0 \<le> x / 2 powi last_place x" using pos by simp
  then have "round_half_even 0 \<le> round_half_even (x / 2 powi last_place x)"
    by (rule round_half_even_mono)
  then show ?thesis
    using pos by (simp add: to_double_pos round_half_even_def)
qed

lemma to_double_minus: "to_double (- x) = - to_double x"
  by (simp add: to_double_def binary_exponent_def Let_def)

lemma to_double_mono_pos:
  assumes "0 < a" and "a \<le> b"
  shows "to_double a \<le> to_double b"
proof -
  let ?ea = "binary_exponent a" and ?eb = "binary_exponent b"
  let ?pa = "last_place a" and ?pb = "last_place b"
  have b: "0 < b" using assms by simp
  have e: "?ea \<le> ?eb" using binary_exponent_mono [OF assms] .
  then have p: "?pa \<le> ?pb" by (simp add: last_place_def)
  show ?thesis
  proof (cases "?pa = ?pb")
    case True
    have "a / 2 powi ?pb \<le> b / 2 powi ?pb"
      using assms(2) by (simp add: divide_right_mono)
    then have "round_half_even (a / 2 powi ?pb) \<le> round_half_even (b / 2 powi ?pb)"
      by (rule round_half_even_mono)
    then have "of_int (round_half_even (a / 2 powi ?pb)) * 2 powi ?pb
             \<le> (of_int (round_half_even (b / 2 powi ?pb)) :: rat) * 2 powi ?pb"
      by (intro mult_right_mono) simp_all
    then show ?thesis
      using assms(1) b True by (simp add: to_double_pos)
  next
    case False
    then have lt: "?pa < ?pb" using p by simp
    then have pb: "?pb = ?eb - 52" unfolding last_place_def by linarith
    have ea: "?ea + 1 \<le> ?eb"
      using lt unfolding last_place_def by linarith
    have k: "0 \<le> ?eb - ?pa" using lt pb by linarith
    have "a < 2 powi (?ea + 1)"
      using binary_exponent_bounds(2) [of a] assms(1) by simp
    also have "\<dots> \<le> 2 powi ?eb"
      using ea by (intro power_int_increasing) simp_all
    finally have a_lt: "a < 2 powi ?eb" .
    have "a / 2 powi ?pa \<le> 2 powi ?eb / 2 powi ?pa"
      using a_lt by (simp add: divide_right_mono)
    also have "\<dots> = 2 powi (?eb - ?pa)"
      by (simp only: two_powi_diff)
    also have "\<dots> = of_int (2 ^ nat (?eb - ?pa))"
      using k by (rule two_powi_nat)
    finally have "round_half_even (a / 2 powi ?pa) \<le> round_half_even (of_int (2 ^ nat (?eb - ?pa)))"
      by (rule round_half_even_mono)
    then have "(of_int (round_half_even (a / 2 powi ?pa)) :: rat) \<le> of_int (2 ^ nat (?eb - ?pa))"
      by (simp del: of_int_power)
    then have "of_int (round_half_even (a / 2 powi ?pa)) * 2 powi ?pa
             \<le> (of_int (2 ^ nat (?eb - ?pa)) :: rat) * 2 powi ?pa"
      by (intro mult_right_mono) simp_all
    also have "(of_int (2 ^ nat (?eb - ?pa)) :: rat) = 2 powi (?eb - ?pa)"
      using k by (rule two_powi_nat [symmetric])
    also have "2 powi (?eb - ?pa) * 2 powi ?pa = (2::rat) powi (?eb - ?pa + ?pa)"
      by (simp only: two_powi_add)
    finally have upper: "to_double a \<le> 2 powi ?eb"
      using assms(1) by (simp add: to_double_pos)
    have "2 powi ?eb \<le> b"
      using binary_exponent_bounds(1) [of b] b by simp
    then have "2 powi ?eb / 2 powi ?pb \<le> b / 2 powi ?pb"
      by (simp add: divide_right_mono)
    moreover have "2 powi ?eb / 2 powi ?pb = (2::rat) powi (?eb - ?pb)"
      by (simp only: two_powi_diff)
    moreover have "(2::rat) powi (?eb - ?pb) = of_int (2 ^ nat (?eb - ?pb))"
      using pb by (intro two_powi_nat) simp
    ultimately have "round_half_even (of_int (2 ^ nat (?eb - ?pb))) \<le> round_half_even (b / 2 powi ?pb)"
      by (intro round_half_even_mono) simp
    then have "(of_int (2 ^ nat (?eb - ?pb)) :: rat) \<le> of_int (round_half_even (b / 2 powi ?pb))"
      by (simp del: of_int_power)
    then have low_int: "(of_int (2 ^ nat (?eb - ?pb)) :: rat) * 2 powi ?pb
             \<le> of_int (round_half_even (b / 2 powi ?pb)) * 2 powi ?pb"
      by (intro mult_right_mono) simp_all
    have "(2::rat) powi ?eb = 2 powi (?eb - ?pb + ?pb)"
      by simp
    also have "\<dots> = 2 powi (?eb - ?pb) * 2 powi ?pb"
      by (simp only: two_powi_add)
    also have "2 powi (?eb - ?pb) = (of_int (2 ^ nat (?eb - ?pb)) :: rat)"
      using pb by (intro two_powi_nat) simp
    also note low_int
    also have "of_int (round_half_even (b / 2 powi ?pb)) * 2 powi ?pb = to_double b"
      using b by (simp add: to_double_pos)
    finally have lower: "2 powi ?eb \<le> to_double b" .
    show ?thesis using upper lower by simp
  qed
qed

lemma to_double_mono:
  assumes "a \<le> b"
  shows "to_double a \<le> to_double b"
proof -
  consider "0 < a" | "a \<le> 0" "0 \<le> b" | "b < 0" by linarith
  then show ?thesis
  proof cases
    case 1
    then show ?thesis using assms by (rule to_double_mono_pos)
  next
    case 2
    have "to_double a = - to_double (- a)" by (simp add: to_double_minus)
    moreover have "0 \<le> to_double (- a)" using 2(1) by (intro to_double_nonneg) simp
    moreover have "0 \<le> to_double b" using 2(2) by (rule to_double_nonneg)
    ultimately show ?thesis by simp
  next
    case 3
    then have "to_double (- b) \<le> to_double (- a)"
      using assms by (intro to_double_mono_pos) simp_all
    then show ?thesis by (simp add: to_double_minus)
  qed
qed

lemma round1_mono: "x \<le> y \<Longrightarrow> round1 x \<le> round1 y"
  unfolding round1_def
  by (intro to_double_mono divide_right_mono) (simp_all add: round_half_even_mono)

lemma foldl_min_le: "foldl min (x::rat) xs \<le> x"
proof (induction xs arbitrary: x)
  case Nil
  then show ?case by simp
next
  case (Cons a xs)
  have "foldl min (min x a) xs \<le> min x a" by (rule Cons.IH)
  then show ?case by simp
qed

lemma foldl_max_ge: "(x::rat) \<le> foldl max x xs"
proof (induction xs arbitrary: x)
  case Nil
  then show ?case by simp
next
  case (Cons a xs)
  have "max x a \<le> foldl max (max x a) xs" by (rule Cons.IH)
  then show ?case by simp
qed

section \<open>Temperatures of a forecast day\<close>

lemma aggregate_temps:
  assumes "aggregate_day_forecast ld so run = Inr d"
  shows "run \<noteq> []"
    and "fd_temp_min d = round1 (foldl min (s_temp (hd run)) (map s_temp (tl run)))"
    and "fd_temp_max d = round1 (foldl max (s_temp (hd run)) (map s_temp (tl run)))"
    and "fd_temp_avg d = round1 (to_double (py_sum (map s_temp run) / of_nat (length run)))"
  using assms
  by (cases run;
      auto simp: aggregate_day_forecast_def Let_def bind_result_def first_sample_def py_min_def
        py_max_def true_div_def split: sum.splits)+

text \<open>
  Claim C8, as the code has it. For a non-empty run, \<open>temp_min \<le> temp_max\<close> after
  rounding, and \<open>temp_avg\<close> is the float mean \<open>sum(temps) / len(temps)\<close> rounded to one
  decimal; a run of one sample, whose temperature is a float, has all three equal to that
  temperature rounded to one decimal.
\<close>

theorem forecast_day_min_le_max:
  assumes "set_iteration set_order" and "run \<noteq> []"
  shows "\<exists>d. aggregate_day_forecast local_date set_order run = Inr d
           \<and> fd_temp_min d \<le> fd_temp_max d
           \<and> fd_temp_avg d = round1 (to_double (py_sum (map s_temp run) / of_nat (length run)))
           \<and> (\<forall>s. run = [s] \<and> to_double (s_temp s) = s_temp s \<longrightarrow>
                 fd_temp_min d = round1 (s_temp s) \<and> fd_temp_max d = round1 (s_temp s)
                 \<and> fd_temp_avg d = round1 (s_temp s))"
proof -
  obtain d where d: "aggregate_day_forecast local_date set_order run = Inr d"
    using aggregate_nonempty [OF assms] by blast
  note t = aggregate_temps [OF d]
  let ?x = "s_temp (hd run)" and ?rest = "map s_temp (tl run)"
  have "foldl min ?x ?rest \<le> foldl max ?x ?rest"
    using foldl_min_le [of ?x ?rest] foldl_max_ge [of ?x ?rest] by simp
  then have le: "fd_temp_min d \<le> fd_temp_max d"
    unfolding t(2,3) by (rule round1_mono)
  have single: "fd_temp_min d = round1 (s_temp s) \<and> fd_temp_max d = round1 (s_temp s)
                 \<and> fd_temp_avg d = round1 (s_temp s)"
    if "run = [s]" "to_double (s_temp s) = s_temp s" for s
    using that t(2,3,4) by (simp add: py_sum_def float_add_def)
  show ?thesis
    using d le t(4) single by blast
qed

lemma to_double_ten: "to_double 10 = 10"
  by code_simp

theorem forecast_day_min_le_max_witness:
  "set_iteration remdups \<and> [sample_at 0 10 ''Rain''] \<noteq> []
   \<and> to_double (s_temp (sample_at 0 10 ''Rain'')) = s_temp (sample_at 0 10 ''Rain'')
   \<and> (\<exists>d. aggregate_day_forecast utc_date remdups [sample_at 0 10 ''Rain''] = Inr d
          \<and> fd_temp_min d = round1 10 \<and> fd_temp_avg d = round1 10 \<and> fd_temp_max d = round1 10)"
proof -
  have h: "set_iteration remdups"
    by (simp add: set_iteration_def)
  have ne: "[sample_at 0 10 ''Rain''] \<noteq> []" by simp
  have t: "s_temp (sample_at 0 10 ''Rain'') = 10"
    by (simp add: sample_at_def)
  from forecast_day_min_le_max [OF h ne, of utc_date]
  show ?thesis using h t to_double_ten by auto
qed

lemma flat_sum_steps:
  "float_add 0 near_045 = near_045"
  "float_add near_045 near_045 = 2026619832316723 / 2251799813685248"
  "float_add (2026619832316723 / 2251799813685248) near_045 = 6079859496950169 / 4503599627370496"
  "float_add (6079859496950169 / 4503599627370496) near_045 = 2026619832316723 / 1125899906842624"
  "float_add (2026619832316723 / 1125899906842624) near_045 = 9 / 4"
  by code_simp+

lemma flat_mean: "to_double (9 / 20) = 8106479329266893 / 18014398509481984"
  by code_simp

lemma flat_rounded:
  "round1 (8106479329266893 / 18014398509481984) = 1 / 2"
  "round1 near_045 = 3602879701896397 / 9007199254740992"
  by code_simp+

text \<open>
  Five samples of 0.44999999999999996 degrees: the float sum is exactly 2.25, the mean
  is 0.45 and rounds to 0.5, while minimum and maximum round to 0.4.
\<close>

theorem temp_avg_above_temp_max_counterexample:
  "day_temps (aggregate_day_forecast utc_date remdups flat_run)
     = Some (3602879701896397 / 9007199254740992, 1 / 2, 3602879701896397 / 9007199254740992)
   \<and> (3602879701896397 / 9007199254740992 :: rat) < 1 / 2"
proof -
  have h: "set_iteration remdups"
    by (simp add: set_iteration_def)
  have ne: "flat_run \<noteq> []" by (simp add: flat_run_def)
  obtain d where d: "aggregate_day_forecast utc_date remdups flat_run = Inr d"
    using aggregate_nonempty [OF h ne] by blast
  note t = aggregate_temps [OF d]
  have temps: "map s_temp flat_run = [near_045, near_045, near_045, near_045, near_045]"
    by (simp add: flat_run_def sample_at_def)
  have sum: "py_sum (map s_temp flat_run) = 9 / 4"
    unfolding temps by (simp add: py_sum_def flat_sum_steps)
  have len: "length flat_run = 5"
    by (simp add: flat_run_def)
  have mean: "to_double (py_sum (map s_temp flat_run) / of_nat (length flat_run))
              = 8106479329266893 / 18014398509481984"
    unfolding sum len using flat_mean by simp
  have avg: "fd_temp_avg d = 1 / 2"
    unfolding t(4) mean by (rule flat_rounded(1))
  have "foldl min (s_temp (hd flat_run)) (map s_temp (tl flat_run)) = near_045"
    by (simp add: flat_run_def sample_at_def)
  then have lo: "fd_temp_min d = 3602879701896397 / 9007199254740992"
    unfolding t(2) by (simp only: flat_rounded(2))
  have "foldl max (s_temp (hd flat_run)) (map s_temp (tl flat_run)) = near_045"
    by (simp add: flat_run_def sample_at_def)
  then have hi: "fd_temp_max d = 3602879701896397 / 9007199254740992"
    unfolding t(3) by (simp only: flat_rounded(2))
  show ?thesis
    by (simp add: d day_temps_def avg lo hi)
qed

section \<open>The current-weather snapshot\<close>

lemma to_double_of_int:
  assumes "\<bar>k\<bar> < 2 ^ 53"
  shows "to_double (of_int k) = of_int k"
proof (cases "k = 0")
  case True
  then show ?thesis by (simp add: to_double_def)
next
  case False
  let ?x = "of_int k :: rat"
  let ?e = "binary_exponent ?x"
  let ?p = "last_place ?x"
  have x: "?x \<noteq> 0" using False by simp
  have "\<bar>?x\<bar> < 2 powi 53"
    using assms by (simp flip: of_int_abs add: of_int_less_numeral_power_cancel_iff)
  then have "(2::rat) powi ?e < 2 powi 53"
    using binary_exponent_bounds(1) [OF x] by simp
  then have "?e < 53"
    using power_int_increasing [of 53 ?e "2::rat"] by (cases "?e < 53") auto
  then have p: "?p \<le> 0" by (simp add: last_place_def)
  define m where "m = nat (- ?p)"
  have pm: "?p = - int m" using p by (simp add: m_def)
  have pw: "(2::rat) powi ?p = 1 / 2 ^ m"
    unfolding pm by (simp add: power_int_minus_divide)
  have "\<bar>?x\<bar> / 2 powi ?p = of_int (\<bar>k\<bar> * 2 ^ m)"
    unfolding pw by simp
  then have r: "round_half_even (\<bar>?x\<bar> / 2 powi ?p) = \<bar>k\<bar> * 2 ^ m"
    by (simp only: round_half_even_of_int)
  have "to_double ?x = sgn ?x * of_int (round_half_even (\<bar>?x\<bar> / 2 powi ?p)) * 2 powi ?p"
    using x by (simp add: to_double_def last_place_def Let_def)
  also have "\<dots> = sgn ?x * (of_int (round_half_even (\<bar>?x\<bar> / 2 powi ?p)) * 2 powi ?p)"
    by simp
  also have "of_int (round_half_even (\<bar>?x\<bar> / 2 powi ?p)) * 2 powi ?p
             = (of_int (\<bar>k\<bar> * 2 ^ m) :: rat) * (1 / 2 ^ m)"
    by (subst r, subst pw, rule refl)
  also have "\<dots> = \<bar>?x\<bar>"
    by simp
  finally have "to_double ?x = sgn ?x * \<bar>?x\<bar>" .
  then show ?thesis
    by (simp add: sgn_mult_abs)
qed

text \<open>
  Claim C7. The snapshot's visibility is the payload's visibility, or 0 when the field is
  absent, divided by 1000 as a float: 10000 metres give 10.0, and every whole number of
  kilometres below \<open>2 ^ 53\<close> comes out exactly. The wind direction is the payload's, or 0
  when absent.
\<close>

theorem visibility_in_kilometres:
  "ws_visibility (process_current_weather now data)
     = float_div (get_or (p_visibility data) 0) 1000
 \<and> ws_visibility (process_current_weather now (data \<lparr> p_visibility := None \<rparr>)) = 0
 \<and> ws_visibility (process_current_weather now (data \<lparr> p_visibility := Some 10000 \<rparr>)) = 10
 \<and> (\<bar>km\<bar> < 2 ^ 53 \<longrightarrow>
      ws_visibility (process_current_weather now (data \<lparr> p_visibility := Some (of_int (1000 * km)) \<rparr>))
        = of_int km)
 \<and> ws_wind_direction (process_current_weather now data) = get_or (p_wind_deg data) 0
 \<and> ws_wind_direction (process_current_weather now (data \<lparr> p_wind_deg := None \<rparr>)) = 0
 \<and> ws_wind_direction (process_current_weather now (data \<lparr> p_wind_deg := Some deg \<rparr>)) = deg"
proof -
  have whole: "float_div (of_int (1000 * km)) 1000 = of_int km" if "\<bar>km\<bar> < 2 ^ 53" for km
    using to_double_of_int [OF that] by (simp add: float_div_def)
  have "float_div 10000 1000 = 10"
    using whole [of 10] by simp
  then show ?thesis
    using whole [of km]
    by (simp add: process_current_weather_def get_or_def float_div_def to_double_def)
qed

theorem visibility_in_kilometres_witness:
  "\<bar>10 :: int\<bar> < 2 ^ 53
 \<and> ws_visibility (process_current_weather 0 (london_payload \<lparr> p_visibility := Some 10000 \<rparr>)) = 10"
proof -
  have h: "\<bar>10 :: int\<bar> < 2 ^ 53" by simp
  from visibility_in_kilometres [of 0 london_payload 10]
  show ?thesis using h by simp
qed

lemma visibility_12345:
  "to_double (123 / 10) < float_div 12345 1000" "float_div 12345 1000 < to_double (124 / 10)"
  by code_simp+

lemma not_one_decimal_between:
  assumes "to_double (of_int k / 10) < v" and "v < to_double (of_int (k + 1) / 10)"
  shows "\<not> one_decimal v"
proof
  assume "one_decimal v"
  then obtain j :: int where j: "v = to_double (of_int j / 10)"
    by (auto simp: one_decimal_def)
  show False
  proof (cases "j \<le> k")
    case True
    then have "(of_int j :: rat) / 10 \<le> of_int k / 10" by simp
    then have "v \<le> to_double (of_int k / 10)"
      unfolding j by (rule to_double_mono)
    then show False using assms(1) by simp
  next
    case False
    then have "k + 1 \<le> j" by simp
    then have "(of_int (k + 1) :: rat) / 10 \<le> of_int j / 10"
      by (simp only: divide_le_cancel of_int_le_iff) simp
    then have "to_double (of_int (k + 1) / 10) \<le> v"
      unfolding j by (rule to_double_mono)
    then show False using assms(2) by simp
  qed
qed

text \<open>
  Claim C4, as the code has it. Temperature, feels-like, minimum, maximum and wind speed
  are the payload's values rounded to one decimal; humidity, pressure, cloud coverage and
  wind direction pass as they are; the visibility is divided by 1000 and not rounded.
\<close>

theorem snapshot_fields_rounded:
  "ws_temperature (process_current_weather now data) = round1 (p_temp data)
 \<and> ws_feels_like (process_current_weather now data) = round1 (p_feels_like data)
 \<and> ws_temp_min (process_current_weather now data) = round1 (p_temp_min data)
 \<and> ws_temp_max (process_current_weather now data) = round1 (p_temp_max data)
 \<and> ws_wind_speed (process_current_weather now data) = round1 (p_wind_speed data)
 \<and> one_decimal (ws_temperature (process_current_weather now data))
 \<and> one_decimal (ws_feels_like (process_current_weather now data))
 \<and> one_decimal (ws_temp_min (process_current_weather now data))
 \<and> one_decimal (ws_temp_max (process_current_weather now data))
 \<and> one_decimal (ws_wind_speed (process_current_weather now data))
 \<and> ws_humidity (process_current_weather now data) = p_humidity data
 \<and> ws_pressure (process_current_weather now data) = p_pressure data
 \<and> ws_clouds (process_current_weather now data) = p_clouds data
 \<and> ws_wind_direction (process_current_weather now data) = get_or (p_wind_deg data) 0
 \<and> ws_visibility (process_current_weather now data)
     = float_div (get_or (p_visibility data) 0) 1000"
proof -
  have "one_decimal (round1 x)" for x
    by (auto simp: one_decimal_def round1_def)
  then show ?thesis
    by (simp add: process_current_weather_def)
qed

text \<open>
  A visibility of 12345 metres gives 12.345, the float between those of 12.3 and 12.4:
  it is not a value rounded to one decimal.
\<close>

theorem visibility_not_rounded_counterexample:
  "\<not> one_decimal (ws_visibility (process_current_weather 0 london_payload))"
proof -
  have "ws_visibility (process_current_weather 0 london_payload) = float_div 12345 1000"
    by (simp add: process_current_weather_def london_payload_def get_or_def)
  moreover have "\<not> one_decimal (float_div 12345 1000)"
    using visibility_12345 by (intro not_one_decimal_between [of 123]) simp_all
  ultimately show ?thesis by simp
qed

end
